theory Spec2Isabelle
  imports Main
begin

section \<open>Python values, errors and dictionaries\<close>

text \<open>
  The module under study is \<^verbatim>\<open>src/ibisclient/connection.py\<close>. Python strings are
  modelled as \<^typ>\<open>string\<close>, read as the UTF-8 bytes of the text (that is what
  \<^verbatim>\<open>urllib.parse.quote\<close> works on). Every exception the code can raise is a value
  of \<open>py_error\<close>; \<open>NotModelled\<close> marks the part of a library primitive that the
  embedding does not cover (it is never a successful result).
\<close>

datatype py_error = TypeError | KeyError | ValueError | IndexError | NotModelled

text \<open>
  A \<^verbatim>\<open>dict\<close> keeps its keys in insertion order, and \<^verbatim>\<open>urlencode\<close> depends on
  that order, so a dictionary is an association list. A Python dictionary never holds a
  key twice: \<open>distinct (map fst d)\<close> is the invariant of the type.
\<close>

type_synonym 'v dict = "(string \<times> 'v) list"

text \<open>\<^verbatim>\<open>d[k] = v\<close>: an existing key keeps its place, a new one goes last.\<close>

fun dict_set :: "'v dict \<Rightarrow> string \<Rightarrow> 'v \<Rightarrow> 'v dict" where
  "dict_set [] k v = [(k, v)]"
| "dict_set ((k', v') # d) k v =
     (if k' = k then (k', v) # d else (k', v') # dict_set d k v)"

text \<open>\<^verbatim>\<open>k in d\<close>.\<close>

definition dict_has :: "'v dict \<Rightarrow> string \<Rightarrow> bool" where
  "dict_has d k = (k \<in> set (map fst d))"

text \<open>
  The values a parameter map can hold, in the order \<^verbatim>\<open>_params_to_strings\<close> tests
  them. \<open>PDate y m d\<close> is \<^verbatim>\<open>datetime.date(y, m, d)\<close>. \<open>PInt\<close> stands for the
  "other scalar" branch (\<^verbatim>\<open>str(value)\<close>); floats and other objects are not modelled.
  Modelled from the spec: the class \<^verbatim>\<open>IbisDto\<close> is in \<^verbatim>\<open>ibisclient/dto.py\<close>, which
  is not among the sources; \<open>PDto s\<close> is a domain-reference object whose
  \<^verbatim>\<open>encoded_string()\<close> returns \<open>s\<close>.
\<close>

datatype pyval =
    PNone
  | PBool bool
  | PDate int int int
  | PList "pyval list"
  | PTuple "pyval list"
  | PDto string
  | PInt int
  | PStr string

subsection \<open>Built-in operations the module calls\<close>

text \<open>\<^verbatim>\<open>str(n)\<close> for an integer: decimal digits, a minus sign when negative.\<close>

definition digit_char :: "nat \<Rightarrow> char" where
  "digit_char n = ''0123456789'' ! n"

fun str_nat :: "nat \<Rightarrow> string" where
  "str_nat n =
     (if n < 10 then [digit_char n] else str_nat (n div 10) @ [digit_char (n mod 10)])"

declare str_nat.simps [simp del]

definition str_int :: "int \<Rightarrow> string" where
  "str_int i = (if i < 0 then CHR ''-'' # str_nat (nat (- i)) else str_nat (nat i))"

text \<open>\<^verbatim>\<open>"%02d" % i\<close>: zeros are added on the left up to a width of two.\<close>

definition fmt_02d :: "int \<Rightarrow> string" where
  "fmt_02d i = (let s = str_int i in if length s < 2 then CHR ''0'' # s else s)"

text \<open>\<^verbatim>\<open>xs[i]\<close>: a negative index counts from the end, out of range raises.\<close>

definition list_getitem :: "'a list \<Rightarrow> int \<Rightarrow> py_error + 'a" where
  "list_getitem xs i =
     (let n = int (length xs); j = (if i < 0 then i + n else i)
      in if j < 0 \<or> n \<le> j then Inl IndexError else Inr (xs ! nat j))"

text \<open>\<^verbatim>\<open>sep.join(xs)\<close> on strings.\<close>

fun py_join :: "string \<Rightarrow> string list \<Rightarrow> string" where
  "py_join sep [] = []"
| "py_join sep [x] = x"
| "py_join sep (x # y # ys) = x @ sep @ py_join sep (y # ys)"

text \<open>\<^verbatim>\<open>join\<close> raises \<^verbatim>\<open>TypeError\<close> on an element that is not a string.\<close>

fun strs_of :: "pyval list \<Rightarrow> string list option" where
  "strs_of [] = Some []"
| "strs_of (PStr s # vs) = map_option ((#) s) (strs_of vs)"
| "strs_of (v # vs) = None"

text \<open>
  \<^verbatim>\<open>urllib.parse.quote\<close>: the bytes in \<^verbatim>\<open>_ALWAYS_SAFE\<close> and in \<open>safe\<close> stay, every
  other byte becomes \<^verbatim>\<open>%XX\<close> with upper-case hexadecimal digits.
\<close>

definition ALWAYS_SAFE :: "char list" where
  "ALWAYS_SAFE =
     ''ABCDEFGHIJKLMNOPQRSTUVWXYZabcdefghijklmnopqrstuvwxyz0123456789_.-~''"

definition hex_digit :: "nat \<Rightarrow> char" where
  "hex_digit n = ''0123456789ABCDEF'' ! n"

definition percent_byte :: "char \<Rightarrow> string" where
  "percent_byte c =
     [CHR ''%'', hex_digit ((of_char c :: nat) div 16), hex_digit ((of_char c :: nat) mod 16)]"

definition quote :: "string \<Rightarrow> string \<Rightarrow> string" where
  "quote s safe =
     concat (map (\<lambda>c. if c \<in> set ALWAYS_SAFE \<or> c \<in> set safe then [c] else percent_byte c) s)"

text \<open>
  \<^verbatim>\<open>urllib.parse.quote_plus\<close> with its default \<^verbatim>\<open>safe=''\<close>: a string with a space is
  quoted with the space safe, then every space is replaced by a plus sign.
\<close>

definition quote_plus :: "string \<Rightarrow> string" where
  "quote_plus s =
     (if CHR '' '' \<in> set s
      then map (\<lambda>c. if c = CHR '' '' then CHR ''+'' else c) (quote s '' '')
      else quote s '''')"

text \<open>\<^verbatim>\<open>urllib.parse.urlencode\<close> of a dictionary of strings.\<close>

definition urlencode :: "string dict \<Rightarrow> string" where
  "urlencode q = py_join ''&'' (map (\<lambda>(k, v). quote_plus k @ ''='' @ quote_plus v) q)"

section \<open>Parameter coercion\<close>

definition MONTHS :: "string list" where
  "MONTHS = [''Jan'', ''Feb'', ''Mar'', ''Apr'', ''May'', ''Jun'',
             ''Jul'', ''Aug'', ''Sep'', ''Oct'', ''Nov'', ''Dec'']"

text \<open>
  The body of the loop of \<^verbatim>\<open>_params_to_strings\<close> for one value: \<open>Inr None\<close> when the
  key is left out (the value is \<^verbatim>\<open>None\<close>), \<open>Inr (Some s)\<close> when \<open>s\<close> is stored.
\<close>

fun param_value_to_string :: "pyval \<Rightarrow> py_error + string option" where
  "param_value_to_string PNone = Inr None"
| "param_value_to_string (PBool b) = Inr (Some (if b then ''true'' else ''false''))"
| "param_value_to_string (PDate y m d) =
     (case list_getitem MONTHS (m - 1) of
        Inl e \<Rightarrow> Inl e
      | Inr mon \<Rightarrow> Inr (Some (fmt_02d d @ '' '' @ mon @ '' '' @ str_int y)))"
| "param_value_to_string (PList vs) =
     (case strs_of vs of None \<Rightarrow> Inl TypeError | Some ss \<Rightarrow> Inr (Some (py_join '','' ss)))"
| "param_value_to_string (PTuple vs) =
     (case strs_of vs of None \<Rightarrow> Inl TypeError | Some ss \<Rightarrow> Inr (Some (py_join '','' ss)))"
| "param_value_to_string (PDto s) = Inr (Some s)"
| "param_value_to_string (PInt i) = Inr (Some (str_int i))"
| "param_value_to_string (PStr s) = Inr (Some s)"

fun params_loop :: "pyval dict \<Rightarrow> string dict \<Rightarrow> py_error + string dict" where
  "params_loop [] new_params = Inr new_params"
| "params_loop ((key, v) # rest) new_params =
     (case param_value_to_string v of
        Inl e \<Rightarrow> Inl e
      | Inr None \<Rightarrow> params_loop rest new_params
      | Inr (Some s) \<Rightarrow> params_loop rest (dict_set new_params key s))"

definition params_to_strings :: "pyval dict \<Rightarrow> py_error + string dict" where
  "params_to_strings params = params_loop params []"

section \<open>The URL builder\<close>

text \<open>
  \<^verbatim>\<open>path % path_params\<close> with a dictionary on the right: \<^verbatim>\<open>%%\<close> gives a percent
  sign and \<^verbatim>\<open>%(key)s\<close> the value stored under \<open>key\<close>. The scanner reads the template
  from left to right as CPython does: a key runs to the parenthesis that closes it
  (nested parentheses are counted) and is looked up as soon as it is closed, so a
  missing key is a \<^verbatim>\<open>KeyError\<close> and a template that stops inside a specifier is a
  \<^verbatim>\<open>ValueError\<close>. Flags, widths, precisions and conversions other than \<^verbatim>\<open>s\<close> are
  outside the embedding: the scanner answers \<open>NotModelled\<close> there.
\<close>

datatype fmt_mode =
    Text
  | Percent
  | Key nat string
  | Conv string

fun emit :: "string \<Rightarrow> py_error + string \<Rightarrow> py_error + string" where
  "emit p (Inl e) = Inl e"
| "emit p (Inr s) = Inr (p @ s)"

fun format_scan :: "fmt_mode \<Rightarrow> string \<Rightarrow> string dict \<Rightarrow> py_error + string" where
  "format_scan Text [] d = Inr []"
| "format_scan Text (c # cs) d =
     (if c = CHR ''%'' then format_scan Percent cs d else emit [c] (format_scan Text cs d))"
| "format_scan Percent [] d = Inl ValueError"
| "format_scan Percent (c # cs) d =
     (if c = CHR ''%'' then emit ''%'' (format_scan Text cs d)
      else if c = CHR ''('' then format_scan (Key 0 []) cs d
      else Inl NotModelled)"
| "format_scan (Key n k) [] d = Inl ValueError"
| "format_scan (Key n k) (c # cs) d =
     (if c = CHR '')'' then
        (case n of
           0 \<Rightarrow> (case map_of d k of None \<Rightarrow> Inl KeyError | Some v \<Rightarrow> format_scan (Conv v) cs d)
         | Suc m \<Rightarrow> format_scan (Key m (k @ [c])) cs d)
      else if c = CHR ''('' then format_scan (Key (Suc n) (k @ [c])) cs d
      else format_scan (Key n (k @ [c])) cs d)"
| "format_scan (Conv v) [] d = Inl ValueError"
| "format_scan (Conv v) (c # cs) d =
     (if c = CHR ''s'' then emit v (format_scan Text cs d) else Inl NotModelled)"

definition py_format :: "string \<Rightarrow> string dict \<Rightarrow> py_error + string" where
  "py_format template d = format_scan Text template d"

definition startswith_slash :: "string \<Rightarrow> bool" where
  "startswith_slash s = (case s of [] \<Rightarrow> False | c # cs \<Rightarrow> c = CHR ''/'')"

definition endswith_slash :: "string \<Rightarrow> bool" where
  "endswith_slash s = (s \<noteq> [] \<and> last s = CHR ''/'')"

section \<open>Connections, sessions and the store\<close>

text \<open>
  A connection holds a reference to a \<^verbatim>\<open>requests.Session\<close> object, which may be one
  the caller passed in, and the credentials every request uses are the session's
  \<^verbatim>\<open>auth\<close> attribute. The store therefore keeps sessions and connections apart, each
  under its address (its index), so that two connections may or may not share a
  session. The warnings issued so far are part of the store.
\<close>

record session =
  auth :: "(string \<times> string) option"
  verify :: bool

record connection =
  host :: string
  port :: int
  url_base :: string
  session_ref :: nat
  username :: "string option"
  password :: "string option"

record heap =
  sessions :: "session list"
  conns :: "connection list"
  warnings :: "string list"

definition empty_heap :: heap where
  "empty_heap = \<lparr>sessions = [], conns = [], warnings = []\<rparr>"

definition update_authorization :: "heap \<Rightarrow> nat \<Rightarrow> heap" where
  "update_authorization h c =
     (let self = conns h ! c; r = session_ref self
      in h\<lparr>sessions := (sessions h)
            [r := (sessions h ! r)
               \<lparr>auth := Some (case username self of None \<Rightarrow> ''anonymous'' | Some u \<Rightarrow> u,
                              case password self of None \<Rightarrow> [] | Some p \<Rightarrow> p)\<rparr>]\<rparr>)"

definition set_username :: "heap \<Rightarrow> nat \<Rightarrow> string option \<Rightarrow> heap" where
  "set_username h c u =
     update_authorization (h\<lparr>conns := (conns h)[c := (conns h ! c)\<lparr>username := u\<rparr>]\<rparr>) c"

definition set_password :: "heap \<Rightarrow> nat \<Rightarrow> string option \<Rightarrow> heap" where
  "set_password h c p =
     update_authorization (h\<lparr>conns := (conns h)[c := (conns h ! c)\<lparr>password := p\<rparr>]\<rparr>) c"

text \<open>
  \<^verbatim>\<open>IbisClientConnection.__init__\<close>. The argument \<open>session_arg\<close> is the address of the
  session the caller passed, or \<open>None\<close>: then a new \<^verbatim>\<open>requests.Session()\<close> is
  allocated (no \<^verbatim>\<open>auth\<close>, certificates verified). The result is the new store and
  the address of the new connection.
\<close>

definition new_connection ::
  "heap \<Rightarrow> string \<Rightarrow> int \<Rightarrow> string \<Rightarrow> bool \<Rightarrow> nat option \<Rightarrow> heap \<times> nat" where
  "new_connection h hst prt base check_certs session_arg =
     (let (h1, r) =
            (case session_arg of
               None \<Rightarrow> (h\<lparr>sessions := sessions h @ [\<lparr>auth = None, verify = True\<rparr>]\<rparr>,
                        length (sessions h))
             | Some r \<Rightarrow> (h, r));
          base1 = (if \<not> startswith_slash base then ''/'' @ base else base);
          base2 = (if \<not> endswith_slash base1 then base1 @ ''/'' else base1);
          h2 = (if \<not> check_certs
                then h1\<lparr>sessions := (sessions h1)[r := (sessions h1 ! r)\<lparr>verify := False\<rparr>],
                        warnings := warnings h1 @
                          [''Setting check_certs=False is dangerous and may not be supported in a future release of ibisclient.'']\<rparr>
                else h1);
          c = length (conns h2);
          h3 = h2\<lparr>conns := conns h2 @
                 [\<lparr>host = hst, port = prt, url_base = base2, session_ref = r,
                   username = None, password = None\<rparr>]\<rparr>
      in (set_username h3 c (Some ''anonymous''), c))"

text \<open>The credentials a request made through connection \<open>c\<close> is sent with.\<close>

definition observed_auth :: "heap \<Rightarrow> nat \<Rightarrow> (string \<times> string) option" where
  "observed_auth h c = auth (sessions h ! session_ref (conns h ! c))"

datatype cred_op = SetUsername "string option" | SetPassword "string option"

fun apply_cred_op :: "nat \<Rightarrow> cred_op \<Rightarrow> heap \<Rightarrow> heap" where
  "apply_cred_op c (SetUsername u) h = set_username h c u"
| "apply_cred_op c (SetPassword p) h = set_password h c p"

definition run_cred_ops :: "nat \<Rightarrow> cred_op list \<Rightarrow> heap \<Rightarrow> heap" where
  "run_cred_ops c ops h = fold (apply_cred_op c) ops h"

subsection \<open>Building the relative URL\<close>

text \<open>
  \<^verbatim>\<open>_build_url\<close>. The first loop stores the quoted value back under each key of the
  caller's dictionary; the keys of a dictionary are distinct, so each entry is read
  before it is overwritten and the loop can run over the entries as they were. The
  function returns the two dictionaries as it leaves them (they
  are the caller's objects) together with its outcome: when the substitution raises, the
  path parameters are already overwritten and the query parameters are not yet touched.
\<close>

definition quote_path_params :: "string dict \<Rightarrow> string dict" where
  "quote_path_params path_params =
     fold (\<lambda>(key, v) d. dict_set d key (quote_plus v)) path_params path_params"

definition build_url ::
  "connection \<Rightarrow> string \<Rightarrow> string dict \<Rightarrow> string dict
     \<Rightarrow> (string dict \<times> string dict) \<times> (py_error + string)" where
  "build_url self path path_params query_params =
     (let pp = quote_path_params path_params
      in case py_format path pp of
           Inl e \<Rightarrow> ((pp, query_params), Inl e)
         | Inr path1 \<Rightarrow>
             let qp = (if \<not> dict_has query_params ''flatten''
                       then dict_set query_params ''flatten'' ''true''
                       else query_params);
                 path2 = path1 @ ''?'' @ urlencode qp
             in ((pp, qp),
                 Inr (if startswith_slash path2 then url_base self @ tl path2
                      else url_base self @ path2)))"

section \<open>Invoking a method\<close>

record request =
  req_method :: string
  req_url :: string
  req_headers :: "string dict"
  req_data :: "string dict option"
  req_auth :: "(string \<times> string) option"
  req_verify :: bool

text \<open>
  What the code reads of a response: \<open>content_type\<close> is the value of the
  \<^verbatim>\<open>Content-type\<close> header, \<open>None\<close> when the response has none (the lookup then raises
  \<^verbatim>\<open>KeyError\<close>); \<open>resp_text\<close> is \<^verbatim>\<open>response.text\<close> and \<open>resp_content\<close> is
  \<^verbatim>\<open>response.content\<close>.
\<close>

record response =
  status_code :: int
  reason :: string
  content_type :: "string option"
  resp_text :: string
  resp_content :: string

text \<open>
  Modelled from the spec: \<^verbatim>\<open>IbisError\<close> and \<^verbatim>\<open>IbisResult\<close> are classes of
  \<^verbatim>\<open>ibisclient/dto.py\<close>, which is not among the sources. The spec gives an error the
  fields \<open>status\<close>, \<open>code\<close>, \<open>message\<close> and an optional \<open>details\<close>, and a result
  the two shapes \<open>Success payload\<close> and \<open>Failure error\<close>; the constructor call
  \<^verbatim>\<open>IbisError({"status": s, "code": c})\<close> is taken to store both entries.
\<close>

record ibis_error =
  status :: int
  code :: string
  message :: string
  details :: "string option"

datatype 'p ibis_result = Success 'p | Failure ibis_error

text \<open>
  Lines 241 to 256: the classification of the response. \<open>parse_xml\<close> stands for
  \<^verbatim>\<open>IbisResultParser().parse_xml\<close> (also of \<^verbatim>\<open>dto.py\<close>), which may raise.
\<close>

definition handle_response ::
  "(string \<Rightarrow> py_error + 'p ibis_result) \<Rightarrow> response \<Rightarrow> py_error + 'p ibis_result" where
  "handle_response parse_xml resp =
     (case content_type resp of
        None \<Rightarrow> Inl KeyError
      | Some ct \<Rightarrow>
          if ct \<noteq> ''application/xml''
          then Inr (Failure \<lparr>status = status_code resp, code = reason resp,
                             message = ''Unexpected result from server'',
                             details = Some (resp_text resp)\<rparr>)
          else parse_xml (resp_content resp))"

text \<open>
  \<^verbatim>\<open>invoke_method\<close>. \<open>send\<close> stands for \<^verbatim>\<open>self.session.request\<close>: one HTTP exchange,
  which may raise. \<open>make_request\<close> is what lines 229 to 239 hand to it: the absolute
  URL, the \<^verbatim>\<open>Accept\<close> header, the form parameters when there are any, and the
  \<^verbatim>\<open>auth\<close> and \<^verbatim>\<open>verify\<close> attributes of the session, which the session adds to
  every request it sends.
\<close>

definition make_request :: "heap \<Rightarrow> nat \<Rightarrow> string \<Rightarrow> string \<Rightarrow> string dict \<Rightarrow> request" where
  "make_request h c method rel form_params =
     (let self = conns h ! c;
          s = sessions h ! session_ref self;
          url = ''https://'' @ host self @ '':'' @ str_int (port self) @ rel
      in \<lparr>req_method = method, req_url = url,
          req_headers = [(''Accept'', ''application/xml'')],
          req_data = (if length form_params > 0 then Some form_params else None),
          req_auth = auth s, req_verify = verify s\<rparr>)"

definition invoke_method ::
  "heap \<Rightarrow> nat \<Rightarrow> (request \<Rightarrow> py_error + response) \<Rightarrow> (string \<Rightarrow> py_error + 'p ibis_result)
     \<Rightarrow> string \<Rightarrow> string \<Rightarrow> pyval dict \<Rightarrow> pyval dict \<Rightarrow> pyval dict
     \<Rightarrow> py_error + 'p ibis_result" where
  "invoke_method h c send parse_xml method path path_params query_params form_params =
     (case params_to_strings path_params of Inl e \<Rightarrow> Inl e | Inr pp \<Rightarrow>
      case params_to_strings query_params of Inl e \<Rightarrow> Inl e | Inr qp \<Rightarrow>
      case params_to_strings form_params of Inl e \<Rightarrow> Inl e | Inr fp \<Rightarrow>
      case snd (build_url (conns h ! c) path pp qp) of Inl e \<Rightarrow> Inl e | Inr rel \<Rightarrow>
      case send (make_request h c method rel fp) of Inl e \<Rightarrow> Inl e | Inr resp \<Rightarrow>
        handle_response parse_xml resp)"

section \<open>Notions of the specification\<close>

text \<open>
  The dates \<^verbatim>\<open>datetime.date\<close> can hold: the class checks its arguments, so every
  date value satisfies \<open>valid_date\<close>.
\<close>

definition is_leap :: "int \<Rightarrow> bool" where
  "is_leap y = (y mod 4 = 0 \<and> (y mod 100 \<noteq> 0 \<or> y mod 400 = 0))"

definition days_in_month :: "int \<Rightarrow> int \<Rightarrow> int" where
  "days_in_month y m =
     (if m = 2 then (if is_leap y then 29 else 28)
      else if m = 4 \<or> m = 6 \<or> m = 9 \<or> m = 11 then 30 else 31)"

definition valid_date :: "int \<Rightarrow> int \<Rightarrow> int \<Rightarrow> bool" where
  "valid_date y m d =
     (1 \<le> y \<and> y \<le> 9999 \<and> 1 \<le> m \<and> m \<le> 12 \<and> 1 \<le> d \<and> d \<le> days_in_month y m)"

text \<open>
  The format \<^verbatim>\<open>DD Mon YYYY\<close> read to the letter: eleven characters, two digits, a
  space, a month abbreviation of the table, a space, four digits.
\<close>

definition is_digit :: "char \<Rightarrow> bool" where
  "is_digit c = (c \<in> set ''0123456789'')"

definition dd_mon_yyyy :: "string \<Rightarrow> bool" where
  "dd_mon_yyyy s =
     (length s = 11 \<and> list_all is_digit (take 2 s) \<and> take 1 (drop 2 s) = '' '' \<and>
      take 3 (drop 3 s) \<in> set MONTHS \<and> take 1 (drop 6 s) = '' '' \<and>
      list_all is_digit (drop 7 s))"



text \<open>
  The credentials a connection holds after a sequence of setter calls, starting from the
  pair the constructor leaves (\<^verbatim>\<open>username = "anonymous"\<close>, \<^verbatim>\<open>password = None\<close>), and
  the concrete pair they resolve to: \<^verbatim>\<open>"anonymous"\<close> for a username that is
  \<^verbatim>\<open>None\<close>, the empty string for a password that is \<^verbatim>\<open>None\<close>.
\<close>

fun cred_after :: "cred_op \<Rightarrow> string option \<times> string option \<Rightarrow> string option \<times> string option" where
  "cred_after (SetUsername u) (a, b) = (u, b)"
| "cred_after (SetPassword p) (a, b) = (a, p)"

definition resolved :: "string option \<times> string option \<Rightarrow> string \<times> string" where
  "resolved up =
     (case fst up of None \<Rightarrow> ''anonymous'' | Some u \<Rightarrow> u,
      case snd up of None \<Rightarrow> [] | Some p \<Rightarrow> p)"


section \<open>Auxiliary facts\<close>

subsection \<open>Dictionaries\<close>

lemma dict_set_keys: "fst ` set (dict_set d k v) = insert k (fst ` set d)"
proof (induction d)
  case Nil
  then show ?case by simp
next
  case (Cons p d)
  obtain k' v' where p: "p = (k', v')" by (cases p)
  show ?case
    by (cases "k' = k") (simp_all add: p Cons.IH insert_commute)
qed

lemma dict_set_distinct: "distinct (map fst d) \<Longrightarrow> distinct (map fst (dict_set d k v))"
proof (induction d)
  case Nil
  then show ?case by simp
next
  case (Cons p d)
  obtain k' v' where p: "p = (k', v')" by (cases p)
  from Cons show ?case
    using dict_set_keys [of d k v] by (auto simp: p)
qed

lemma dict_set_fresh: "k \<notin> fst ` set d \<Longrightarrow> dict_set d k v = d @ [(k, v)]"
  by (induction d) auto

lemma dict_set_append: "k \<notin> fst ` set xs \<Longrightarrow> dict_set (xs @ ys) k v = xs @ dict_set ys k v"
  by (induction xs) auto

subsection \<open>The constructor\<close>

lemma new_connection_own_session:
  assumes "new_connection h hst prt base cc None = (h', c)"
  shows "c = length (conns h)"
    and "conns h' = conns h @
           [\<lparr>host = hst, port = prt,
             url_base = (let base1 = (if \<not> startswith_slash base then ''/'' @ base else base)
                         in if \<not> endswith_slash base1 then base1 @ ''/'' else base1),
             session_ref = length (sessions h),
             username = Some ''anonymous'', password = None\<rparr>]"
    and "sessions h' = sessions h @ [\<lparr>auth = Some (''anonymous'', []), verify = cc\<rparr>]"
  using assms
  by (auto simp: new_connection_def set_username_def update_authorization_def Let_def
        nth_append list_update_append split: if_splits)

lemma example_connection:
  "new_connection empty_heap ''example.org'' 443 '''' True None =
     (\<lparr>sessions = [\<lparr>auth = Some (''anonymous'', []), verify = True\<rparr>],
       conns = [\<lparr>host = ''example.org'', port = 443, url_base = ''/'', session_ref = 0,
                 username = Some ''anonymous'', password = None\<rparr>],
       warnings = []\<rparr>, 0)"
  by (simp add: new_connection_def empty_heap_def set_username_def update_authorization_def
        startswith_slash_def endswith_slash_def)

subsection \<open>Coercion\<close>

lemma params_loop_distinct:
  "distinct (map fst acc) \<Longrightarrow> params_loop ps acc = Inr out \<Longrightarrow> distinct (map fst out)"
proof (induction ps acc rule: params_loop.induct)
  case (1 new_params)
  then show ?case by simp
next
  case (2 key v rest new_params)
  then show ?case
    by (auto split: sum.splits option.splits intro: dict_set_distinct)
qed

lemma params_loop_strings:
  "distinct (map fst (acc @ d)) \<Longrightarrow>
   params_loop (map (\<lambda>(k, s). (k, PStr s)) d) acc = Inr (acc @ d)"
proof (induction d arbitrary: acc)
  case Nil
  then show ?case by simp
next
  case (Cons p d)
  obtain k s where p: "p = (k, s)" by (cases p)
  from Cons.prems have fresh: "k \<notin> fst ` set acc"
    by (auto simp: p)
  from Cons.prems have "distinct (map fst ((acc @ [(k, s)]) @ d))"
    by (auto simp: p)
  from Cons.IH [OF this] show ?case
    by (simp add: p dict_set_fresh [OF fresh])
qed

lemma param_value_None: "param_value_to_string v = Inr None \<longleftrightarrow> v = PNone"
  by (cases v) (auto split: sum.splits option.splits)

lemma params_loop_keys:
  "params_loop ps acc = Inr out \<Longrightarrow>
   fst ` set out = fst ` set acc \<union> {k. \<exists>v. (k, v) \<in> set ps \<and> v \<noteq> PNone}"
proof (induction ps acc arbitrary: out rule: params_loop.induct)
  case (1 new_params)
  then show ?case by simp
next
  case (2 key v rest new_params)
  show ?case
  proof (cases "param_value_to_string v")
    case (Inl e)
    with 2 show ?thesis by simp
  next
    case (Inr r)
    show ?thesis
    proof (cases r)
      case None
      with Inr have "v = PNone"
        by (simp add: param_value_None)
      with 2 Inr None show ?thesis
        by auto
    next
      case (Some s)
      with Inr have "v \<noteq> PNone"
        by auto
      with 2 Inr Some show ?thesis
        by (auto simp: dict_set_keys)
    qed
  qed
qed






subsection \<open>Quoting and substitution\<close>










lemma quote_path_params_gen:
  "distinct (map fst (xs @ ys)) \<Longrightarrow>
   fold (\<lambda>(key, v) d. dict_set d key (quote_plus v)) ys (map (\<lambda>(k, v). (k, quote_plus v)) xs @ ys) =
   map (\<lambda>(k, v). (k, quote_plus v)) (xs @ ys)"
proof (induction ys arbitrary: xs)
  case Nil
  then show ?case by simp
next
  case (Cons p ys)
  obtain k v where p: "p = (k, v)" by (cases p)
  from Cons.prems have fresh: "k \<notin> fst ` set (map (\<lambda>(k, v). (k, quote_plus v)) xs)"
    by (force simp: p)
  from Cons.prems have "distinct (map fst ((xs @ [(k, v)]) @ ys))"
    by (simp add: p)
  from Cons.IH [OF this] show ?case
    by (simp add: p dict_set_append [OF fresh])
qed

lemma quote_path_params_map:
  "distinct (map fst pp) \<Longrightarrow> quote_path_params pp = map (\<lambda>(k, v). (k, quote_plus v)) pp"
  unfolding quote_path_params_def using quote_path_params_gen [of "[]" pp] by simp






subsection \<open>The URL builder\<close>

lemma startswith_slash_query: "startswith_slash (p @ CHR ''?'' # q) = startswith_slash p"
  by (cases p) (simp_all add: startswith_slash_def)

lemma tl_append_slash: "startswith_slash p \<Longrightarrow> tl (p @ r) = tl p @ r"
  by (cases p) (simp_all add: startswith_slash_def)

lemma flatten_fresh:
  "\<not> dict_has qp ''flatten'' \<Longrightarrow> dict_set qp ''flatten'' ''true'' = qp @ [(''flatten'', ''true'')]"
  by (rule dict_set_fresh) (simp add: dict_has_def)

lemma build_url_outcome:
  "snd (build_url self path pp qp) =
     (case py_format path (quote_path_params pp) of
        Inl e \<Rightarrow> Inl e
      | Inr path1 \<Rightarrow>
          Inr (url_base self @ (if startswith_slash path1 then tl path1 else path1) @ ''?'' @
               urlencode (if dict_has qp ''flatten'' then qp else qp @ [(''flatten'', ''true'')])))"
  by (simp add: build_url_def Let_def startswith_slash_query tl_append_slash flatten_fresh
        split: sum.splits)

lemma build_url_query_params:
  "snd (fst (build_url self path pp qp)) =
     (case snd (build_url self path pp qp) of
        Inl e \<Rightarrow> qp
      | Inr u \<Rightarrow> if dict_has qp ''flatten'' then qp else qp @ [(''flatten'', ''true'')])"
  by (simp add: build_url_def Let_def flatten_fresh split: sum.splits)

lemma build_url_path_params:
  "fst (fst (build_url self path pp qp)) = quote_path_params pp"
  by (simp add: build_url_def Let_def split: sum.splits)



subsection \<open>Credentials\<close>

lemma nth_update_same: "(xs[i := f (xs ! i)]) ! i = (if i < length xs then f (xs ! i) else xs ! i)"
  by (cases "i < length xs") (simp_all add: list_update_beyond)

lemma apply_cred_op_frame:
  assumes "session_ref (conns h ! a) \<noteq> session_ref (conns h ! b)"
  shows "conns (apply_cred_op a op h) ! b = conns h ! b"
    and "session_ref (conns (apply_cred_op a op h) ! a) = session_ref (conns h ! a)"
    and "sessions (apply_cred_op a op h) ! session_ref (conns h ! b) =
         sessions h ! session_ref (conns h ! b)"
proof -
  from assms have ab: "a \<noteq> b" by auto
  show "conns (apply_cred_op a op h) ! b = conns h ! b"
    using ab by (cases op) (simp_all add: set_username_def set_password_def
        update_authorization_def Let_def)
  show sr: "session_ref (conns (apply_cred_op a op h) ! a) = session_ref (conns h ! a)"
    by (cases op) (simp_all add: set_username_def set_password_def
        update_authorization_def Let_def nth_update_same)
  show "sessions (apply_cred_op a op h) ! session_ref (conns h ! b) =
         sessions h ! session_ref (conns h ! b)"
    using assms by (cases op) (simp_all add: set_username_def set_password_def
        update_authorization_def Let_def nth_update_same)
qed

lemma run_cred_ops_frame:
  "session_ref (conns h ! a) \<noteq> session_ref (conns h ! b) \<Longrightarrow>
   conns (run_cred_ops a ops h) ! b = conns h ! b \<and>
   sessions (run_cred_ops a ops h) ! session_ref (conns h ! b) =
     sessions h ! session_ref (conns h ! b)"
proof (induction ops arbitrary: h)
  case Nil
  then show ?case by (simp add: run_cred_ops_def)
next
  case (Cons op ops)
  let ?h = "apply_cred_op a op h"
  note fr = apply_cred_op_frame [OF Cons.prems, of op]
  from Cons.prems fr have "session_ref (conns ?h ! a) \<noteq> session_ref (conns ?h ! b)"
    by simp
  from Cons.IH [OF this] fr show ?case
    by (simp add: run_cred_ops_def)
qed

lemma new_connection_fresh_session:
  assumes "\<forall>b < length (conns h). session_ref (conns h ! b) < length (sessions h)"
    and "new_connection h hst prt base cc None = (h', a)"
    and "b < length (conns h)"
  shows "session_ref (conns h' ! a) \<noteq> session_ref (conns h' ! b)"
  using assms new_connection_own_session [OF assms(2)]
  by (auto simp: nth_append)

lemma cred_step:
  assumes "c < length (conns h)" and "session_ref (conns h ! c) < length (sessions h)"
    and "username (conns h ! c) = fst up" and "password (conns h ! c) = snd up"
  shows "c < length (conns (apply_cred_op c op h)) \<and>
         session_ref (conns (apply_cred_op c op h) ! c) < length (sessions (apply_cred_op c op h)) \<and>
         username (conns (apply_cred_op c op h) ! c) = fst (cred_after op up) \<and>
         password (conns (apply_cred_op c op h) ! c) = snd (cred_after op up) \<and>
         observed_auth (apply_cred_op c op h) c = Some (resolved (cred_after op up))"
  using assms
  by (cases op; cases up)
     (simp_all add: set_username_def set_password_def update_authorization_def Let_def
        observed_auth_def resolved_def)

lemma cred_run:
  assumes "c < length (conns h)" and "session_ref (conns h ! c) < length (sessions h)"
    and "username (conns h ! c) = fst up" and "password (conns h ! c) = snd up"
    and "observed_auth h c = Some (resolved up)"
  shows "observed_auth (run_cred_ops c ops h) c = Some (resolved (fold cred_after ops up))"
  using assms
proof (induction ops arbitrary: h up)
  case Nil
  then show ?case by (simp add: run_cred_ops_def)
next
  case (Cons op ops)
  note st = cred_step [OF Cons.prems(1-4), of op]
  have "observed_auth (run_cred_ops c ops (apply_cred_op c op h)) c =
          Some (resolved (fold cred_after ops (cred_after op up)))"
    by (rule Cons.IH) (use st in simp_all)
  then show ?case
    by (simp add: run_cred_ops_def)
qed

lemma new_connection_state:
  assumes "new_connection h0 hst prt base cc sarg = (h1, c)"
    and "case sarg of None \<Rightarrow> True | Some r \<Rightarrow> r < length (sessions h0)"
  shows "c < length (conns h1)"
    and "session_ref (conns h1 ! c) < length (sessions h1)"
    and "username (conns h1 ! c) = Some ''anonymous''"
    and "password (conns h1 ! c) = None"
    and "observed_auth h1 c = Some (''anonymous'', [])"
  using assms
  by (auto simp: new_connection_def set_username_def update_authorization_def Let_def
        observed_auth_def nth_append split: option.splits if_splits)

lemma set_username_conns:
  "conns (set_username h a u) = (conns h)[a := (conns h ! a)\<lparr>username := u\<rparr>]"
  by (simp add: set_username_def update_authorization_def Let_def)

lemma set_username_sessions:
  "a < length (conns h) \<Longrightarrow>
   sessions (set_username h a u) =
     (sessions h)[session_ref (conns h ! a) :=
        (sessions h ! session_ref (conns h ! a))
          \<lparr>auth := Some (resolved (u, password (conns h ! a)))\<rparr>]"
  by (simp add: set_username_def update_authorization_def Let_def resolved_def)

subsection \<open>Dates\<close>

lemma digit_char_is_digit: "n < 10 \<Longrightarrow> is_digit (digit_char n)"
  unfolding is_digit_def digit_char_def by (intro nth_mem) simp

lemma str_nat_small: "n < 10 \<Longrightarrow> str_nat n = [digit_char n]"
  by (subst str_nat.simps) simp

lemma str_nat_large: "10 \<le> n \<Longrightarrow> str_nat n = str_nat (n div 10) @ [digit_char (n mod 10)]"
  by (subst str_nat.simps) simp

lemma str_nat_digits: "list_all is_digit (str_nat n)"
proof (induction n rule: str_nat.induct)
  case (1 n)
  show ?case
  proof (cases "n < 10")
    case True
    then show ?thesis by (simp add: str_nat_small digit_char_is_digit)
  next
    case False
    with 1 show ?thesis by (simp add: str_nat_large digit_char_is_digit)
  qed
qed

lemma str_nat_length:
  "n < 10000 \<Longrightarrow>
   length (str_nat n) = (if n < 10 then 1 else if n < 100 then 2 else if n < 1000 then 3 else 4)"
proof -
  assume n: "n < 10000"
  have l1: "length (str_nat k) = 1" if "k < 10" for k
    using that by (simp add: str_nat_small)
  have l2: "length (str_nat k) = 2" if "10 \<le> k" "k < 100" for k
    using that l1 [of "k div 10"] by (simp add: str_nat_large)
  have l3: "length (str_nat k) = 3" if "100 \<le> k" "k < 1000" for k
    using that l2 [of "k div 10"] by (simp add: str_nat_large)
  have l4: "length (str_nat k) = 4" if "1000 \<le> k" "k < 10000" for k
    using that l3 [of "k div 10"] by (simp add: str_nat_large)
  show ?thesis
    using n l1 [of n] l2 [of n] l3 [of n] l4 [of n] by auto
qed

lemma fmt_02d_day:
  assumes "1 \<le> d" and "d \<le> 31"
  shows "fmt_02d d = [digit_char (nat d div 10), digit_char (nat d mod 10)]"
proof (cases "d < 10")
  case True
  with assms have "str_int d = [digit_char (nat d)]"
    by (simp add: str_int_def str_nat_small)
  moreover from True assms have "nat d div 10 = 0" "nat d mod 10 = nat d"
    by simp_all
  moreover have "digit_char 0 = CHR ''0''"
    by (simp add: digit_char_def)
  ultimately show ?thesis
    by (simp add: fmt_02d_def)
next
  case False
  with assms have "nat d div 10 < 10" "10 \<le> nat d"
    by simp_all
  with assms have "str_int d = [digit_char (nat d div 10), digit_char (nat d mod 10)]"
    by (simp add: str_int_def str_nat_large str_nat_small)
  then show ?thesis
    by (simp add: fmt_02d_def)
qed

lemma month_name:
  assumes "1 \<le> m" and "m \<le> 12"
  shows "list_getitem MONTHS (m - 1) = Inr (MONTHS ! nat (m - 1))"
    and "MONTHS ! nat (m - 1) \<in> set MONTHS"
    and "length (MONTHS ! nat (m - 1)) = 3"
proof -
  have len: "length MONTHS = 12"
    by (simp add: MONTHS_def)
  from assms show "list_getitem MONTHS (m - 1) = Inr (MONTHS ! nat (m - 1))"
    by (simp add: list_getitem_def len)
  from assms show mem: "MONTHS ! nat (m - 1) \<in> set MONTHS"
    by (intro nth_mem) (simp add: len)
  have "\<forall>s \<in> set MONTHS. length s = 3"
    by (simp add: MONTHS_def)
  with mem show "length (MONTHS ! nat (m - 1)) = 3"
    by blast
qed

lemma days_in_month_le: "days_in_month y m \<le> 31"
  by (simp add: days_in_month_def)

lemma dd_mon_yyyy_shape:
  assumes "is_digit a" and "is_digit b" and "mon \<in> set MONTHS" and "length mon = 3"
    and "list_all is_digit ys"
  shows "dd_mon_yyyy ([a, b] @ '' '' @ mon @ '' '' @ ys) \<longleftrightarrow> length ys = 4"
  using assms by (auto simp: dd_mon_yyyy_def)

section \<open>The claims\<close>

subsection \<open>C1: a response that is not XML\<close>



subsection \<open>C2: the URL of the example\<close>

text \<open>
  C2. For a connection built with host \<^verbatim>\<open>example.org\<close>, port 443 and base path
  \<^verbatim>\<open>""\<close> (in any store, with either setting of \<^verbatim>\<open>check_certs\<close>), invoking
  \<^verbatim>\<open>GET\<close> on the template \<^verbatim>\<open>api/v1/person/%(scheme)s/%(identifier)s\<close> with the path
  parameters \<^verbatim>\<open>scheme = crsid\<close>, \<^verbatim>\<open>identifier = dar17\<close> and the query parameter
  \<^verbatim>\<open>fetch = email,title\<close> hands the session exactly one request, whose URL is
  \<^verbatim>\<open>https://example.org:443/api/v1/person/crsid/dar17?fetch=email%2Ctitle&flatten=true\<close>.
\<close>

theorem example_absolute_url:
  assumes "new_connection h0 ''example.org'' 443 '''' check_certs None = (h, c)"
  shows "invoke_method h c send parse_xml ''GET'' ''api/v1/person/%(scheme)s/%(identifier)s''
           [(''scheme'', PStr ''crsid''), (''identifier'', PStr ''dar17'')]
           [(''fetch'', PStr ''email,title'')] [] =
         (case send \<lparr>req_method = ''GET'',
                      req_url = ''https://example.org:443/api/v1/person/crsid/dar17?fetch=email%2Ctitle&flatten=true'',
                      req_headers = [(''Accept'', ''application/xml'')],
                      req_data = None,
                      req_auth = Some (''anonymous'', ''''),
                      req_verify = check_certs\<rparr> of
            Inl e \<Rightarrow> Inl e
          | Inr resp \<Rightarrow> handle_response parse_xml resp)"
proof -
  note nc = new_connection_own_session [OF assms]
  have pp: "params_to_strings [(''scheme'', PStr ''crsid''), (''identifier'', PStr ''dar17'')] =
              Inr [(''scheme'', ''crsid''), (''identifier'', ''dar17'')]"
    by (simp add: params_to_strings_def)
  have qp: "params_to_strings [(''fetch'', PStr ''email,title'')] = Inr [(''fetch'', ''email,title'')]"
    by (simp add: params_to_strings_def)
  have fp: "params_to_strings [] = Inr []"
    by (simp add: params_to_strings_def)
  have self: "conns h ! c = \<lparr>host = ''example.org'', port = 443, url_base = ''/'',
       session_ref = length (sessions h0), username = Some ''anonymous'', password = None\<rparr>"
    by (simp add: nc startswith_slash_def endswith_slash_def)
  have sess: "sessions h ! length (sessions h0) =
       \<lparr>auth = Some (''anonymous'', []), verify = check_certs\<rparr>"
    by (simp add: nc)
  have url: "snd (build_url \<lparr>host = ''example.org'', port = 443, url_base = ''/'',
       session_ref = length (sessions h0), username = Some ''anonymous'', password = None\<rparr>
       ''api/v1/person/%(scheme)s/%(identifier)s''
       [(''scheme'', ''crsid''), (''identifier'', ''dar17'')] [(''fetch'', ''email,title'')]) =
     Inr ''/api/v1/person/crsid/dar17?fetch=email%2Ctitle&flatten=true''"
    by (simp add: build_url_def quote_path_params_def py_format_def dict_has_def urlencode_def
          startswith_slash_def quote_plus_def quote_def ALWAYS_SAFE_def percent_byte_def
          hex_digit_def)
  have port: "str_int 443 = ''443''"
    by (simp add: str_int_def str_nat.simps digit_char_def)
  show ?thesis
    by (simp add: invoke_method_def pp qp fp self url make_request_def sess port)
qed

theorem example_absolute_url_witness:
  "invoke_method
     (fst (new_connection empty_heap ''example.org'' 443 '''' True None))
     (snd (new_connection empty_heap ''example.org'' 443 '''' True None))
     (\<lambda>rq. Inr \<lparr>status_code = 200, reason = ''OK'', content_type = Some ''text/plain'',
                  resp_text = req_url rq, resp_content = []\<rparr>)
     (\<lambda>body. Inl ValueError) ''GET'' ''api/v1/person/%(scheme)s/%(identifier)s''
     [(''scheme'', PStr ''crsid''), (''identifier'', PStr ''dar17'')]
     [(''fetch'', PStr ''email,title'')] [] =
   (Inr (Failure \<lparr>status = 200, code = ''OK'', message = ''Unexpected result from server'',
                   details = Some ''https://example.org:443/api/v1/person/crsid/dar17?fetch=email%2Ctitle&flatten=true''\<rparr>)
      :: py_error + unit ibis_result)"
  using example_absolute_url [OF example_connection,
      where send = "\<lambda>rq. Inr \<lparr>status_code = 200, reason = ''OK'',
                      content_type = Some ''text/plain'', resp_text = req_url rq,
                      resp_content = []\<rparr>"
        and parse_xml = "(\<lambda>body. Inl ValueError) :: string \<Rightarrow> py_error + unit ibis_result"]
  by (simp add: example_connection handle_response_def)

subsection \<open>C3: the default \<^verbatim>\<open>flatten=true\<close>\<close>



subsection \<open>C4: credentials are not shared between connections\<close>

text \<open>
  C4. Two connections are independent when they do not hold the same session object; a
  connection constructed without a \<^verbatim>\<open>session\<close> argument gets a session of its own
  (\<open>new_connection_fresh_session\<close>). For two such connections \<open>a\<close> and \<open>b\<close>, no
  sequence of \<^verbatim>\<open>set_username\<close> and \<^verbatim>\<open>set_password\<close> calls on \<open>a\<close> changes the
  credentials a request made through \<open>b\<close> is sent with.
\<close>

theorem credentials_per_connection:
  assumes "session_ref (conns h ! a) \<noteq> session_ref (conns h ! b)"
  shows "observed_auth (run_cred_ops a ops h) b = observed_auth h b \<and>
         req_auth (make_request (run_cred_ops a ops h) b method rel fp) =
           req_auth (make_request h b method rel fp)"
  using run_cred_ops_frame [OF assms, of ops]
  by (simp add: observed_auth_def make_request_def Let_def)

theorem credentials_per_connection_witness:
  "new_connection
     (fst (new_connection empty_heap ''example.org'' 443 '''' True None))
     ''lookup-test.srv.uis.cam.ac.uk'' 443 '''' True None =
     (\<lparr>sessions = [\<lparr>auth = Some (''anonymous'', []), verify = True\<rparr>,
                   \<lparr>auth = Some (''anonymous'', []), verify = True\<rparr>],
       conns = [\<lparr>host = ''example.org'', port = 443, url_base = ''/'', session_ref = 0,
                 username = Some ''anonymous'', password = None\<rparr>,
                \<lparr>host = ''lookup-test.srv.uis.cam.ac.uk'', port = 443, url_base = ''/'',
                 session_ref = 1, username = Some ''anonymous'', password = None\<rparr>],
       warnings = []\<rparr>, 1) \<and>
   observed_auth
     (run_cred_ops 0 [SetUsername (Some ''group''), SetPassword (Some ''secret'')]
        \<lparr>sessions = [\<lparr>auth = Some (''anonymous'', []), verify = True\<rparr>,
                      \<lparr>auth = Some (''anonymous'', []), verify = True\<rparr>],
          conns = [\<lparr>host = ''example.org'', port = 443, url_base = ''/'', session_ref = 0,
                    username = Some ''anonymous'', password = None\<rparr>,
                   \<lparr>host = ''lookup-test.srv.uis.cam.ac.uk'', port = 443, url_base = ''/'',
                    session_ref = 1, username = Some ''anonymous'', password = None\<rparr>],
          warnings = []\<rparr>) 1 = Some (''anonymous'', [])"
proof -
  let ?h = "\<lparr>sessions = [\<lparr>auth = Some (''anonymous'', []), verify = True\<rparr>,
                          \<lparr>auth = Some (''anonymous'', []), verify = True\<rparr>],
              conns = [\<lparr>host = ''example.org'', port = 443, url_base = ''/'', session_ref = 0,
                        username = Some ''anonymous'', password = None\<rparr>,
                       \<lparr>host = ''lookup-test.srv.uis.cam.ac.uk'', port = 443, url_base = ''/'',
                        session_ref = 1, username = Some ''anonymous'', password = None\<rparr>],
              warnings = []\<rparr>"
  have built: "new_connection
     (fst (new_connection empty_heap ''example.org'' 443 '''' True None))
     ''lookup-test.srv.uis.cam.ac.uk'' 443 '''' True None = (?h, 1)"
    by (simp add: example_connection)
       (simp add: new_connection_def set_username_def update_authorization_def
          startswith_slash_def endswith_slash_def)
  have distinct_sessions: "session_ref (conns ?h ! 0) \<noteq> session_ref (conns ?h ! 1)"
    by simp
  have "observed_auth ?h 1 = Some (''anonymous'', [])"
    by (simp add: observed_auth_def)
  with credentials_per_connection [OF distinct_sessions,
      of "[SetUsername (Some ''group''), SetPassword (Some ''secret'')]"] built
  show ?thesis
    by simp
qed

subsection \<open>C5: the credentials are always a concrete pair\<close>

text \<open>
  C5. After construction (with a session of its own or with a session of the store) and
  after any sequence of \<^verbatim>\<open>set_username\<close> and \<^verbatim>\<open>set_password\<close> calls on the
  connection, \<^verbatim>\<open>None\<close> arguments included, the credentials of every request made
  through it are a pair of strings: the username last set, or \<^verbatim>\<open>anonymous\<close> when it is
  \<^verbatim>\<open>None\<close>, and the password last set, or the empty string when it is \<^verbatim>\<open>None\<close> or
  was never set.
\<close>

theorem credentials_always_resolved:
  assumes "new_connection h0 hst prt base cc sarg = (h1, c)"
    and "case sarg of None \<Rightarrow> True | Some r \<Rightarrow> r < length (sessions h0)"
  shows "observed_auth (run_cred_ops c ops h1) c =
           Some (resolved (fold cred_after ops (Some ''anonymous'', None))) \<and>
         req_auth (make_request (run_cred_ops c ops h1) c method rel fp) =
           Some (resolved (fold cred_after ops (Some ''anonymous'', None)))"
proof -
  note st = new_connection_state [OF assms]
  have "observed_auth (run_cred_ops c ops h1) c =
          Some (resolved (fold cred_after ops (Some ''anonymous'', None)))"
    by (rule cred_run) (use st in \<open>simp_all add: resolved_def\<close>)
  then show ?thesis
    by (simp add: observed_auth_def make_request_def Let_def)
qed

theorem credentials_always_resolved_witness:
  "observed_auth
     (run_cred_ops (snd (new_connection empty_heap ''example.org'' 443 '''' True None))
        [SetUsername (Some ''group''), SetPassword (Some ''secret''), SetUsername None]
        (fst (new_connection empty_heap ''example.org'' 443 '''' True None)))
     (snd (new_connection empty_heap ''example.org'' 443 '''' True None)) =
   Some (''anonymous'', ''secret'')"
proof -
  have ok: "case None of None \<Rightarrow> True | Some r \<Rightarrow> r < length (sessions empty_heap)"
    by simp
  from credentials_always_resolved [OF example_connection ok,
      of "[SetUsername (Some ''group''), SetPassword (Some ''secret''), SetUsername None]"]
  show ?thesis
    by (simp add: example_connection resolved_def)
qed

subsection \<open>C6: path parameter values are encoded\<close>



subsection \<open>C7: dates\<close>

text \<open>
  C7, as the claim states it, fails for the years before 1000, which \<^verbatim>\<open>datetime.date\<close>
  accepts: the year is written with \<^verbatim>\<open>%d\<close>, without padding, so 2 January 999 is
  coerced to \<^verbatim>\<open>02 Jan 999\<close>, which is not of the form \<^verbatim>\<open>DD Mon YYYY\<close>.
\<close>

theorem short_year_not_four_digits:
  "valid_date 999 1 2 \<and> param_value_to_string (PDate 999 1 2) = Inr (Some ''02 Jan 999'') \<and>
   \<not> dd_mon_yyyy ''02 Jan 999''"
  by (simp add: valid_date_def days_in_month_def list_getitem_def MONTHS_def fmt_02d_def
        str_int_def str_nat.simps digit_char_def dd_mon_yyyy_def)

text \<open>
  C7, amended. For every calendar date, coercion produces exactly the day as two digits
  (padded with a zero), a space, the three-letter English abbreviation of the month from
  the fixed table, a space, and the year in decimal digits without padding; the result
  has the form \<^verbatim>\<open>DD Mon YYYY\<close> exactly when the year is 1000 or later.
\<close>

theorem date_format:
  assumes "valid_date y m d"
  shows "\<exists>s. param_value_to_string (PDate y m d) = Inr (Some s) \<and>
           s = [digit_char (nat d div 10), digit_char (nat d mod 10)] @ '' '' @
               MONTHS ! nat (m - 1) @ '' '' @ str_int y \<and>
           length (MONTHS ! nat (m - 1)) = 3 \<and>
           list_all is_digit (str_int y) \<and>
           (dd_mon_yyyy s \<longleftrightarrow> 1000 \<le> y)"
proof -
  from assms have y: "1 \<le> y" "y \<le> 9999" and m: "1 \<le> m" "m \<le> 12" and d: "1 \<le> d" "d \<le> 31"
    using days_in_month_le [of y m] by (auto simp: valid_date_def)
  let ?s = "[digit_char (nat d div 10), digit_char (nat d mod 10)] @ '' '' @
            MONTHS ! nat (m - 1) @ '' '' @ str_int y"
  have val: "param_value_to_string (PDate y m d) = Inr (Some ?s)"
    by (simp add: month_name(1) [OF m] fmt_02d_day [OF d])
  have yd: "list_all is_digit (str_int y)"
    using y by (simp add: str_int_def str_nat_digits)
  have dd: "is_digit (digit_char (nat d div 10))" "is_digit (digit_char (nat d mod 10))"
    using d by (simp_all add: digit_char_is_digit)
  have "length (str_int y) = 4 \<longleftrightarrow> 1000 \<le> y"
    using y str_nat_length [of "nat y"] by (auto simp: str_int_def split: if_splits)
  then have "dd_mon_yyyy ?s \<longleftrightarrow> 1000 \<le> y"
    using dd_mon_yyyy_shape [OF dd month_name(2,3) [OF m] yd] by simp
  with val yd month_name(3) [OF m] show ?thesis
    by blast
qed

theorem date_format_witness:
  "valid_date 2024 1 2 \<and> param_value_to_string (PDate 2024 1 2) = Inr (Some ''02 Jan 2024'') \<and>
   dd_mon_yyyy ''02 Jan 2024''"
proof -
  have v: "valid_date 2024 1 2"
    by (simp add: valid_date_def days_in_month_def)
  have e: "param_value_to_string (PDate 2024 1 2) = Inr (Some ''02 Jan 2024'')"
    by (simp add: list_getitem_def MONTHS_def fmt_02d_def str_int_def str_nat.simps digit_char_def)
  from date_format [OF v] e v show ?thesis
    by auto
qed

subsection \<open>C8: sequences\<close>




subsection \<open>C9: coercion is idempotent\<close>

text \<open>
  C9. Whenever \<^verbatim>\<open>_params_to_strings\<close> returns a map, applying it to that map (whose
  values are all strings) returns the same map: strings pass through unchanged and the
  keys keep their order.
\<close>

theorem params_to_strings_idempotent:
  assumes "params_to_strings params = Inr out"
  shows "params_to_strings (map (\<lambda>(k, s). (k, PStr s)) out) = Inr out"
proof -
  from assms have "distinct (map fst out)"
    unfolding params_to_strings_def using params_loop_distinct [of "[]" params out] by simp
  then show ?thesis
    unfolding params_to_strings_def using params_loop_strings [of "[]" out] by simp
qed

theorem params_to_strings_idempotent_witness:
  "params_to_strings
     [(''a'', PBool True), (''b'', PNone), (''c'', PList [PStr ''x'', PStr ''y'']),
      (''a'', PDate 2024 1 2)] =
     Inr [(''a'', ''02 Jan 2024''), (''c'', ''x,y'')] \<and>
   params_to_strings [(''a'', PStr ''02 Jan 2024''), (''c'', PStr ''x,y'')] =
     Inr [(''a'', ''02 Jan 2024''), (''c'', ''x,y'')]"
proof -
  have h: "params_to_strings
     [(''a'', PBool True), (''b'', PNone), (''c'', PList [PStr ''x'', PStr ''y'']),
      (''a'', PDate 2024 1 2)] =
     Inr [(''a'', ''02 Jan 2024''), (''c'', ''x,y'')]"
    by (simp add: params_to_strings_def list_getitem_def MONTHS_def fmt_02d_def str_int_def
          str_nat.simps digit_char_def)
  show ?thesis
    using params_to_strings_idempotent [OF h] h by simp
qed

subsection \<open>C10: the builder overwrites its arguments\<close>

text \<open>
  C10. \<^verbatim>\<open>_build_url\<close> leaves the caller's path parameters with every value replaced by
  its encoded form (also when the substitution then raises), and the caller's query
  parameters with \<^verbatim>\<open>flatten = true\<close> added when the key was absent and a URL was
  built. A second call with the same path-parameter dictionary therefore encodes the
  values a second time, and its URL is the one built from the doubly encoded values.
\<close>

theorem build_url_mutates_arguments:
  assumes "distinct (map fst pp)"
  shows "fst (fst (build_url self path pp qp)) = map (\<lambda>(k, v). (k, quote_plus v)) pp \<and>
         snd (fst (build_url self path pp qp)) =
           (case snd (build_url self path pp qp) of
              Inl e \<Rightarrow> qp
            | Inr u \<Rightarrow> if dict_has qp ''flatten'' then qp else qp @ [(''flatten'', ''true'')]) \<and>
         fst (fst (build_url self path (fst (fst (build_url self path pp qp))) qp')) =
           map (\<lambda>(k, v). (k, quote_plus (quote_plus v))) pp \<and>
         snd (build_url self path (fst (fst (build_url self path pp qp))) qp') =
           (case py_format path (map (\<lambda>(k, v). (k, quote_plus (quote_plus v))) pp) of
              Inl e \<Rightarrow> Inl e
            | Inr path1 \<Rightarrow>
                Inr (url_base self @ (if startswith_slash path1 then tl path1 else path1) @ ''?'' @
                     urlencode (if dict_has qp' ''flatten'' then qp'
                                else qp' @ [(''flatten'', ''true'')])))"
proof -
  let ?pp = "map (\<lambda>(k, v). (k, quote_plus v)) pp"
  have first: "fst (fst (build_url self path pp qp)) = ?pp"
    using assms by (simp add: build_url_path_params quote_path_params_map)
  have keys: "map fst ?pp = map fst pp"
    by (induction pp) auto
  have "distinct (map fst ?pp)"
    by (subst keys) (rule assms)
  then have "quote_path_params ?pp = map (\<lambda>(k, v). (k, quote_plus v)) ?pp"
    by (rule quote_path_params_map)
  also have "\<dots> = map (\<lambda>(k, v). (k, quote_plus (quote_plus v))) pp"
    by (induction pp) auto
  finally have second: "quote_path_params ?pp = map (\<lambda>(k, v). (k, quote_plus (quote_plus v))) pp" .
  show ?thesis
    unfolding first
    by (simp add: build_url_query_params build_url_path_params build_url_outcome [of self path ?pp qp'] second)
qed

theorem build_url_mutates_arguments_witness:
  "build_url \<lparr>host = ''example.org'', port = 443, url_base = ''/'', session_ref = 0,
               username = None, password = None\<rparr>
     ''api/v1/group/%(groupid)s'' [(''groupid'', ''a b'')] [] =
     (([(''groupid'', ''a+b'')], [(''flatten'', ''true'')]),
      Inr ''/api/v1/group/a+b?flatten=true'') \<and>
   build_url \<lparr>host = ''example.org'', port = 443, url_base = ''/'', session_ref = 0,
               username = None, password = None\<rparr>
     ''api/v1/group/%(groupid)s'' [(''groupid'', ''a+b'')] [(''flatten'', ''true'')] =
     (([(''groupid'', ''a%2Bb'')], [(''flatten'', ''true'')]),
      Inr ''/api/v1/group/a%2Bb?flatten=true'')"
proof -
  let ?self = "\<lparr>host = ''example.org'', port = 443, url_base = ''/'', session_ref = 0,
                 username = None, password = None\<rparr>"
  have d: "distinct (map fst [(''groupid'', ''a b'')])"
    by simp
  have q1: "quote_plus ''a b'' = ''a+b''"
    by (simp add: quote_plus_def quote_def ALWAYS_SAFE_def)
  have q2: "quote_plus ''a+b'' = ''a%2Bb''"
    by (simp add: quote_plus_def quote_def ALWAYS_SAFE_def percent_byte_def hex_digit_def)
  have f1: "py_format ''api/v1/group/%(groupid)s'' [(''groupid'', ''a+b'')] =
              Inr ''api/v1/group/a+b''"
    by (simp add: py_format_def)
  have f2: "py_format ''api/v1/group/%(groupid)s'' [(''groupid'', ''a%2Bb'')] =
              Inr ''api/v1/group/a%2Bb''"
    by (simp add: py_format_def)
  have u: "urlencode [(''flatten'', ''true'')] = ''flatten=true''"
    by (simp add: urlencode_def quote_plus_def quote_def ALWAYS_SAFE_def)
  have o1: "snd (build_url ?self ''api/v1/group/%(groupid)s'' [(''groupid'', ''a b'')] []) =
              Inr ''/api/v1/group/a+b?flatten=true''"
    by (simp add: build_url_outcome quote_path_params_def q1 f1 dict_has_def u
          startswith_slash_def)
  note t = build_url_mutates_arguments [OF d, of ?self "''api/v1/group/%(groupid)s''" "[]"
      "[(''flatten'', ''true'')]"]
  from t [THEN conjunct1]
  have a1: "fst (fst (build_url ?self ''api/v1/group/%(groupid)s'' [(''groupid'', ''a b'')] [])) =
              [(''groupid'', ''a+b'')]"
    by (simp add: q1)
  from t [THEN conjunct2, THEN conjunct1]
  have a2: "snd (fst (build_url ?self ''api/v1/group/%(groupid)s'' [(''groupid'', ''a b'')] [])) =
              [(''flatten'', ''true'')]"
    by (simp add: o1 dict_has_def)
  from t [THEN conjunct2, THEN conjunct2, THEN conjunct1, unfolded a1]
  have b1: "fst (fst (build_url ?self ''api/v1/group/%(groupid)s'' [(''groupid'', ''a+b'')]
              [(''flatten'', ''true'')])) = [(''groupid'', ''a%2Bb'')]"
    by (simp add: q1 q2)
  from t [THEN conjunct2, THEN conjunct2, THEN conjunct2, unfolded a1]
  have b2: "snd (build_url ?self ''api/v1/group/%(groupid)s'' [(''groupid'', ''a+b'')]
              [(''flatten'', ''true'')]) = Inr ''/api/v1/group/a%2Bb?flatten=true''"
    by (simp add: q1 q2 f2 u dict_has_def startswith_slash_def)
  have b3: "snd (fst (build_url ?self ''api/v1/group/%(groupid)s'' [(''groupid'', ''a+b'')]
              [(''flatten'', ''true'')])) = [(''flatten'', ''true'')]"
    by (simp add: build_url_query_params b2 dict_has_def)
  show ?thesis
    by (simp add: prod_eq_iff a1 a2 o1 b1 b2 b3)
qed

section \<open>Further properties\<close>

text \<open>
  X1. The boundary of C4: when two connections hold the same session object (the caller
  passed one session to both constructors), \<^verbatim>\<open>set_username\<close> on one of them sets the
  credentials of the requests made through the other.
\<close>

theorem shared_session_shares_credentials:
  assumes a: "a < length (conns h)"
    and r: "session_ref (conns h ! a) < length (sessions h)"
    and same: "session_ref (conns h ! b) = session_ref (conns h ! a)"
  shows "observed_auth (set_username h a u) b = Some (resolved (u, password (conns h ! a)))"
proof -
  have "session_ref (conns (set_username h a u) ! b) = session_ref (conns h ! a)"
  proof (cases "a = b")
    case True
    with a show ?thesis
      by (simp only: set_username_conns) simp
  next
    case False
    then have "conns (set_username h a u) ! b = conns h ! b"
      by (simp only: set_username_conns) simp
    with same show ?thesis
      by (simp only:)
  qed
  then have "observed_auth (set_username h a u) b =
      auth (sessions (set_username h a u) ! session_ref (conns h ! a))"
    by (simp only: observed_auth_def)
  also have "\<dots> = Some (resolved (u, password (conns h ! a)))"
    using r by (simp only: set_username_sessions [OF a]) simp
  finally show ?thesis .
qed

theorem shared_session_shares_credentials_witness:
  "new_connection (fst (new_connection empty_heap ''example.org'' 443 '''' True None))
     ''lookup-test.srv.uis.cam.ac.uk'' 443 '''' True (Some 0) =
     (\<lparr>sessions = [\<lparr>auth = Some (''anonymous'', []), verify = True\<rparr>],
       conns = [\<lparr>host = ''example.org'', port = 443, url_base = ''/'', session_ref = 0,
                 username = Some ''anonymous'', password = None\<rparr>,
                \<lparr>host = ''lookup-test.srv.uis.cam.ac.uk'', port = 443, url_base = ''/'',
                 session_ref = 0, username = Some ''anonymous'', password = None\<rparr>],
       warnings = []\<rparr>, 1) \<and>
   observed_auth
     (set_username
        \<lparr>sessions = [\<lparr>auth = Some (''anonymous'', []), verify = True\<rparr>],
          conns = [\<lparr>host = ''example.org'', port = 443, url_base = ''/'', session_ref = 0,
                    username = Some ''anonymous'', password = None\<rparr>,
                   \<lparr>host = ''lookup-test.srv.uis.cam.ac.uk'', port = 443, url_base = ''/'',
                    session_ref = 0, username = Some ''anonymous'', password = None\<rparr>],
          warnings = []\<rparr>
        0 (Some ''group'')) 1 = Some (''group'', [])"
proof -
  let ?h = "\<lparr>sessions = [\<lparr>auth = Some (''anonymous'', []), verify = True\<rparr>],
              conns = [\<lparr>host = ''example.org'', port = 443, url_base = ''/'', session_ref = 0,
                        username = Some ''anonymous'', password = None\<rparr>,
                       \<lparr>host = ''lookup-test.srv.uis.cam.ac.uk'', port = 443, url_base = ''/'',
                        session_ref = 0, username = Some ''anonymous'', password = None\<rparr>],
              warnings = []\<rparr>"
  have built: "new_connection (fst (new_connection empty_heap ''example.org'' 443 '''' True None))
                ''lookup-test.srv.uis.cam.ac.uk'' 443 '''' True (Some 0) = (?h, 1)"
    by (simp add: example_connection)
       (simp add: new_connection_def set_username_def update_authorization_def
          startswith_slash_def endswith_slash_def)
  have a: "0 < length (conns ?h)"
    by simp
  have r: "session_ref (conns ?h ! 0) < length (sessions ?h)"
    by simp
  have same: "session_ref (conns ?h ! 1) = session_ref (conns ?h ! 0)"
    by simp
  have "observed_auth (set_username ?h 0 (Some ''group'')) 1 =
          Some (resolved (Some ''group'', password (conns ?h ! 0)))"
    by (rule shared_session_shares_credentials [OF a r same])
  then have "observed_auth (set_username ?h 0 (Some ''group'')) 1 = Some (''group'', [])"
    by (simp add: resolved_def)
  with built show ?thesis
    by (simp only:) 
qed

text \<open>
  X2. A key whose value is \<^verbatim>\<open>None\<close> is never a key of the coerced map.
\<close>

theorem none_values_omitted:
  assumes "distinct (map fst params)" and "params_to_strings params = Inr out"
    and "(k, PNone) \<in> set params"
  shows "k \<notin> fst ` set out"
proof
  assume "k \<in> fst ` set out"
  with assms(2) obtain v where v: "(k, v) \<in> set params" "v \<noteq> PNone"
    unfolding params_to_strings_def using params_loop_keys [of params "[]" out] by auto
  from assms(1) v(1) assms(3) have "v = PNone"
    by (meson eq_key_imp_eq_value)
  with v(2) show False by simp
qed

theorem none_values_omitted_witness:
  "params_to_strings [(''fetch'', PNone), (''format'', PBool False)] = Inr [(''format'', ''false'')] \<and>
   ''fetch'' \<notin> fst ` set [(''format'', ''false'')]"
proof -
  have d: "distinct (map fst [(''fetch'', PNone), (''format'', PBool False)])"
    by simp
  have h: "params_to_strings [(''fetch'', PNone), (''format'', PBool False)] =
             Inr [(''format'', ''false'')]"
    by (simp add: params_to_strings_def)
  have m: "(''fetch'', PNone) \<in> set [(''fetch'', PNone), (''format'', PBool False)]"
    by simp
  from none_values_omitted [OF d h m] h show ?thesis
    by blast
qed

end
